theory Spec2Isabelle
  imports Complex_Main "HOL-Library.Word"
begin

section \<open>Raster images\<close>

text \<open>
  The programs of this repository (gallery.py, gallery\_v2.py, gallery\_v4.py) work on
  Pillow images opened from JPEG files.  An image is modelled as its raster: a width and
  a list of rows of RGB pixels; the height is the number of rows.  Sizes are natural
  numbers, as Pillow's are; the arithmetic the programs do on them is Python integer
  arithmetic and is written over \<open>int\<close> where a difference can be negative.
\<close>

type_synonym pixel = "8 word \<times> 8 word \<times> 8 word"

record image =
  width :: nat
  rows :: "pixel list list"

definition height :: "image \<Rightarrow> nat" where
  "height img = length (rows img)"

definition wf_image :: "image \<Rightarrow> bool" where
  "wf_image img = list_all (\<lambda>r. length r = width img) (rows img)"

definition black :: pixel where
  "black = (0, 0, 0)"

definition white :: pixel where
  "white = (255, 255, 255)"

text \<open>The pixel at column \<open>x\<close> of row \<open>y\<close>; outside the raster Pillow's crop reads black.\<close>

definition px :: "image \<Rightarrow> int \<Rightarrow> int \<Rightarrow> pixel" where
  "px img x y =
     (if 0 \<le> x \<and> x < int (width img) \<and> 0 \<le> y \<and> y < int (height img)
      then rows img ! nat y ! nat x else black)"

section \<open>FrameValidator: is\_blank\_image\<close>

text \<open>
  \<open>image.convert("L")\<close>: Pillow's ITU-R 601-2 luma transform, in its fixed-point form
  \<open>(R * 19595 + G * 38470 + B * 7471 + 0x8000) >> 16\<close>, one 8-bit value per pixel.
\<close>

definition luma :: "pixel \<Rightarrow> 8 word" where
  "luma p = (case p of (r, g, b) \<Rightarrow>
     of_nat ((unat r * 19595 + unat g * 38470 + unat b * 7471 + 32768) div 65536))"

definition convert_L :: "image \<Rightarrow> 8 word list list" where
  "convert_L img = map (map luma) (rows img)"

text \<open>\<open>grayscale.histogram()\<close>: 256 buckets, bucket \<open>v\<close> counts the pixels of value \<open>v\<close>.\<close>

definition histogram :: "8 word list list \<Rightarrow> nat list" where
  "histogram grayscale =
     map (\<lambda>v. length (filter (\<lambda>p. unat p = v) (concat grayscale))) [0..<256]"

text \<open>
  gallery\_v4.py, \<open>is_blank_image\<close>.  The source compares an integer count with the
  double \<open>0.95 * total_pixels\<close>; the product is taken here over the reals.  (The double
  nearest to 0.95 lies below it by less than \<open>2\<^sup>-\<^sup>5\<^sup>4\<close> relative, so for every raster
  below \<open>10\<^sup>1\<^sup>4\<close> pixels the comparison of the source and the one here agree.)
\<close>

definition is_blank_image :: "image \<Rightarrow> bool" where
  "is_blank_image img =
     (let grayscale = convert_L img;
          hist = histogram grayscale;
          total_pixels = sum_list hist
      in if real (last hist) > 0.95 * real total_pixels
            \<or> real (hd hist) > 0.95 * real total_pixels then True
         else if real (Max (set hist)) > 0.95 * real total_pixels then True
         else False)"

text \<open>gallery\_v2.py, \<open>is_blank_image\<close>: only the white bucket is looked at.\<close>

definition is_blank_image_v2 :: "image \<Rightarrow> bool" where
  "is_blank_image_v2 img =
     (let grayscale = convert_L img;
          hist = histogram grayscale
      in real (last hist) > 0.95 * real (sum_list hist))"

section \<open>Pillow operations on rasters\<close>

text \<open>
  What the programs can raise: Pillow's \<open>ValueError\<close> (a crop box with a negative extent),
  an error of the OpenCV detector, and \<open>OSError\<close> when a file does not decode.
\<close>

datatype error = ValueError | cv2_error | OSError

text \<open>\<open>Image.new("RGB", (w, h))\<close>: a black canvas.\<close>

definition Image_new :: "nat \<Rightarrow> nat \<Rightarrow> image" where
  "Image_new w h = \<lparr>width = w, rows = replicate h (replicate w black)\<rparr>"

text \<open>
  \<open>image.crop((left, upper, right, lower))\<close>: a new image of \<open>right - left\<close> columns and
  \<open>lower - upper\<close> rows; pixels of the box that lie outside the source are black; a box with
  \<open>right < left\<close> or \<open>lower < upper\<close> raises \<open>ValueError\<close>.
\<close>

definition crop :: "image \<Rightarrow> int \<times> int \<times> int \<times> int \<Rightarrow> error + image" where
  "crop img box = (case box of (left, upper, right, lower) \<Rightarrow>
     if right < left then Inl ValueError
     else if lower < upper then Inl ValueError
     else Inr \<lparr>width = nat (right - left),
               rows = map (\<lambda>y. map (\<lambda>x. px img (left + int x) (upper + int y))
                                  [0..<nat (right - left)])
                          [0..<nat (lower - upper)]\<rparr>)"

text \<open>
  \<open>canvas.paste(im, (x0, y0))\<close>: the canvas keeps its size; the pixels under the box of
  \<open>im\<close> are replaced, the part of \<open>im\<close> beyond the canvas is clipped.
\<close>

definition paste :: "image \<Rightarrow> image \<Rightarrow> nat \<times> nat \<Rightarrow> image" where
  "paste canvas im pos = (case pos of (x0, y0) \<Rightarrow>
     \<lparr>width = width canvas,
      rows = map (\<lambda>y. map (\<lambda>x. if x0 \<le> x \<and> x < x0 + width im \<and> y0 \<le> y \<and> y < y0 + height im
                                then px im (int x - int x0) (int y - int y0)
                                else px canvas (int x) (int y))
                         [0..<width canvas])
                 [0..<height canvas]\<rparr>)"

text \<open>
  \<open>image.rotate(angle, resample=Image.BICUBIC, expand=True)\<close>: Pillow reduces the angle
  modulo 360 and returns a copy of the image when the result is 0; every other angle is
  resampled, which is the parameter \<open>resample\<close> here.  Angles are doubles in the source and
  reals here.
\<close>

type_synonym resampler = "real \<Rightarrow> image \<Rightarrow> image"

definition rotate_img :: "resampler \<Rightarrow> image \<Rightarrow> real \<Rightarrow> image" where
  "rotate_img resample img angle =
     (let a = angle - 360 * of_int \<lfloor>angle / 360\<rfloor>
      in if a = 0 then img else resample a img)"

section \<open>HorizonAligner: align\_horizon\<close>

text \<open>
  \<open>cv2.HoughLines(cv2.Canny(grayscale, 50, 150), 1, np.pi / 180, 150)\<close> is a parameter: it
  raises, or returns \<open>None\<close> when there is no line, or the lines found, at least one, each
  a pair \<open>(rho, theta)\<close>.
\<close>

type_synonym line = "real \<times> real"

type_synonym detector = "8 word list list \<Rightarrow> error + (line \<times> line list) option"

definition mean_angle :: "(line \<times> line list) option \<Rightarrow> real" where
  "mean_angle lines = (case lines of
       Some (l, ls) \<Rightarrow>
         (let angles = map (\<lambda>(rho, theta). theta * 180 / pi - 90) (l # ls)
          in sum_list angles / real (length angles))
     | None \<Rightarrow> 0)"

definition align_horizon :: "detector \<Rightarrow> resampler \<Rightarrow> image \<Rightarrow> error + image" where
  "align_horizon hough resample img =
     (let grayscale = convert_L img
      in case hough grayscale of
           Inl e \<Rightarrow> Inl e
         | Inr lines \<Rightarrow> Inr (rotate_img resample img (- mean_angle lines)))"

section \<open>PanelPipeline: process\_and\_split\_image\<close>

text \<open>The box of panel \<open>i\<close>: \<open>(0, i * panel_height, width, (i + 1) * panel_height)\<close>.\<close>

definition panel_box :: "nat \<Rightarrow> nat \<Rightarrow> nat \<Rightarrow> int \<times> int \<times> int \<times> int" where
  "panel_box w panel_height i = (0, int (i * panel_height), int w, int ((i + 1) * panel_height))"

text \<open>
  The loop \<open>for i in range(6)\<close>: crop the panel, align it, append it; an exception of
  either call leaves the loop.
\<close>

fun align_panels ::
  "detector \<Rightarrow> resampler \<Rightarrow> image \<Rightarrow> nat \<Rightarrow> nat list \<Rightarrow> image list \<Rightarrow> error + image list"
where
  "align_panels hough resample img panel_height [] aligned_panels = Inr aligned_panels"
| "align_panels hough resample img panel_height (i # is) aligned_panels =
     (case crop img (panel_box (width img) panel_height i) of
        Inl e \<Rightarrow> Inl e
      | Inr panel \<Rightarrow>
          (case align_horizon hough resample panel of
             Inl e \<Rightarrow> Inl e
           | Inr aligned_panel \<Rightarrow>
               align_panels hough resample img panel_height is
                 (aligned_panels @ [aligned_panel])))"

text \<open>The loop that pastes the images one under the other, at \<open>x = 0\<close>.\<close>

fun paste_all :: "image \<Rightarrow> nat \<Rightarrow> image list \<Rightarrow> image" where
  "paste_all canvas y_offset [] = canvas"
| "paste_all canvas y_offset (panel # panels) =
     paste_all (paste canvas panel (0, y_offset)) (y_offset + height panel) panels"

definition combined_height :: "image list \<Rightarrow> nat" where
  "combined_height aligned_panels = sum_list (map height aligned_panels)"

definition combined_image :: "nat \<Rightarrow> image list \<Rightarrow> image" where
  "combined_image w aligned_panels =
     paste_all (Image_new w (combined_height aligned_panels)) 0 aligned_panels"

text \<open>\<open>aligned_panels[0]\<close> and \<open>aligned_panels[-1]\<close>: the list holds six panels here.\<close>

definition trim_top :: "nat \<Rightarrow> image list \<Rightarrow> int" where
  "trim_top panel_height aligned_panels =
     max 0 (int (height (hd aligned_panels)) - int panel_height)"

definition trim_bottom :: "nat \<Rightarrow> image list \<Rightarrow> int" where
  "trim_bottom panel_height aligned_panels =
     max 0 (int (height (last aligned_panels)) - int panel_height)"

definition trimmed_image :: "nat \<Rightarrow> nat \<Rightarrow> image list \<Rightarrow> error + image" where
  "trimmed_image w panel_height aligned_panels =
     crop (combined_image w aligned_panels)
       (0, trim_top panel_height aligned_panels, int w,
        int (combined_height aligned_panels) - trim_bottom panel_height aligned_panels)"

definition range6 :: "nat list" where
  "range6 = [0, 1, 2, 3, 4, 5]"

definition process_and_split_image :: "detector \<Rightarrow> resampler \<Rightarrow> image \<Rightarrow> error + image" where
  "process_and_split_image hough resample img =
     (let w = width img; h = height img
      in if h < 6 then Inr img
         else
           let panel_height = h div 6
           in case align_panels hough resample img panel_height range6 [] of
                Inl e \<Rightarrow> Inl e
              | Inr aligned_panels \<Rightarrow> trimmed_image w panel_height aligned_panels)"

text \<open>
  The same function on image objects.  The store holds the image objects, a reference is
  an index into it.  A frame too short to split is returned as the object that was passed
  in; otherwise the result is a new object.
\<close>

type_synonym ref = nat

type_synonym store = "image list"

definition process_and_split_image_obj ::
  "detector \<Rightarrow> resampler \<Rightarrow> store \<Rightarrow> ref \<Rightarrow> error + ref \<times> store" where
  "process_and_split_image_obj hough resample s r =
     (let img = s ! r; w = width img; h = height img
      in if h < 6 then Inr (r, s)
         else
           let panel_height = h div 6
           in case align_panels hough resample img panel_height range6 [] of
                Inl e \<Rightarrow> Inl e
              | Inr aligned_panels \<Rightarrow>
                  (case trimmed_image w panel_height aligned_panels of
                     Inl e \<Rightarrow> Inl e
                   | Inr trimmed \<Rightarrow> Inr (length s, s @ [trimmed])))"

section \<open>GalleryComposer and the loop of create\_gallery\<close>

text \<open>
  Lines 123 to 140 of gallery\_v4.py (and 52 to 68 of gallery.py): the gallery that is
  saved, or none when the list is empty.
\<close>

definition compose :: "image list \<Rightarrow> image option" where
  "compose images =
     (if images \<noteq> [] then
        let gallery_width = Max (set (map width images));
            gallery_height = sum_list (map height images);
            gallery = Image_new gallery_width gallery_height
        in Some (paste_all gallery 0 images)
      else None)"

text \<open>
  The loop over the buoys.  Fetching and decoding are the environment: \<open>fetch\<close> gives the
  path of the saved file or \<open>None\<close>, \<open>Image_open\<close> decodes it or raises.  The state is the
  list \<open>images\<close>; \<open>pipeline_inputs\<close> is a history variable that records every frame passed
  to \<open>process_and_split_image\<close>.
\<close>

record cycle =
  images :: "image list"
  pipeline_inputs :: "image list"

definition cycle_step ::
  "(nat \<Rightarrow> string option) \<Rightarrow> (string \<Rightarrow> error + image) \<Rightarrow> detector \<Rightarrow> resampler
     \<Rightarrow> cycle \<Rightarrow> nat \<Rightarrow> cycle" where
  "cycle_step fetch Image_open hough resample st buoy_id =
     (case fetch buoy_id of
        None \<Rightarrow> st
      | Some image_path \<Rightarrow>
          (case Image_open image_path of
             Inl e \<Rightarrow> st
           | Inr img \<Rightarrow>
               if is_blank_image img then st
               else
                 (case process_and_split_image hough resample img of
                    Inl e \<Rightarrow> st\<lparr>pipeline_inputs := pipeline_inputs st @ [img]\<rparr>
                  | Inr processed_img \<Rightarrow>
                      st\<lparr>images := images st @ [processed_img],
                         pipeline_inputs := pipeline_inputs st @ [img]\<rparr>)))"

definition run_cycle ::
  "(nat \<Rightarrow> string option) \<Rightarrow> (string \<Rightarrow> error + image) \<Rightarrow> detector \<Rightarrow> resampler
     \<Rightarrow> nat list \<Rightarrow> cycle" where
  "run_cycle fetch Image_open hough resample buoy_ids =
     foldl (cycle_step fetch Image_open hough resample)
       \<lparr>images = [], pipeline_inputs = []\<rparr> buoy_ids"

definition create_gallery ::
  "(nat \<Rightarrow> string option) \<Rightarrow> (string \<Rightarrow> error + image) \<Rightarrow> detector \<Rightarrow> resampler
     \<Rightarrow> nat list \<Rightarrow> image option" where
  "create_gallery fetch Image_open hough resample buoy_ids =
     compose (images (run_cycle fetch Image_open hough resample buoy_ids))"


section \<open>Example frames and environments\<close>

text \<open>
  Small frames on which the classifiers are evaluated: twenty pixels of which nineteen are
  white (one bucket holds exactly 95 per cent), single white and black pixels, and two pixels
  split between black and white.
\<close>

definition frame95 :: image where
  "frame95 = \<lparr>width = 20, rows = [replicate 19 white @ [black]]\<rparr>"

definition white1 :: image where
  "white1 = \<lparr>width = 1, rows = [[white]]\<rparr>"

definition black1 :: image where
  "black1 = \<lparr>width = 1, rows = [[black]]\<rparr>"

definition split2 :: image where
  "split2 = \<lparr>width = 2, rows = [[black, white]]\<rparr>"

text \<open>
  Detectors and a resampler for the examples: a detector that finds no line, one that
  raises, and a resampler that leaves the image as it is; the panel without rows.
\<close>

definition no_lines :: detector where
  "no_lines grayscale = Inr None"


definition keep :: resampler where
  "keep a img = img"


text \<open>
  An environment for the examples: buoy 45007 delivers the white pixel, every other buoy the
  two-pixel frame.
\<close>

definition fetch_ok :: "nat \<Rightarrow> string option" where
  "fetch_ok buoy_id = Some (if buoy_id = 45007 then ''white'' else ''split'')"

definition open_ok :: "string \<Rightarrow> error + image" where
  "open_ok image_path = Inr (if image_path = ''white'' then white1 else split2)"

text \<open>
  For the statements about the loop: the results of \<open>process_and_split_image\<close> on a list of
  frames, those that raise left out, and the invariant of the loop.
\<close>

definition outputs :: "detector \<Rightarrow> resampler \<Rightarrow> image list \<Rightarrow> image list" where
  "outputs hough resample frames =
     concat (map (\<lambda>f. case process_and_split_image hough resample f of
                         Inl e \<Rightarrow> [] | Inr processed_img \<Rightarrow> [processed_img]) frames)"

definition cycle_inv ::
  "(nat \<Rightarrow> string option) \<Rightarrow> (string \<Rightarrow> error + image) \<Rightarrow> detector \<Rightarrow> resampler
     \<Rightarrow> cycle \<Rightarrow> bool" where
  "cycle_inv fetch Image_open hough resample st =
     ((\<forall>f \<in> set (pipeline_inputs st).
          \<not> is_blank_image f
          \<and> (\<exists>buoy_id image_path. fetch buoy_id = Some image_path
                                   \<and> Image_open image_path = Inr f))
      \<and> images st = outputs hough resample (pipeline_inputs st))"

text \<open>The frames of the composer's example: A of 10 by 5 pixels, black, B of 8 by 7, white.\<close>

definition frameA :: image where
  "frameA = \<lparr>width = 10, rows = replicate 5 (replicate 10 black)\<rparr>"

definition frameB :: image where
  "frameB = \<lparr>width = 8, rows = replicate 7 (replicate 8 white)\<rparr>"

text \<open>A frame of one column and seven rows, the last one white.\<close>

definition frame7 :: image where
  "frame7 = \<lparr>width = 1, rows = [[black], [black], [black], [black], [black], [black], [white]]\<rparr>"

section \<open>Properties of the blank classifier\<close>

lemma gt95_iff: "(real h > 0.95 * real t) = (19 * t < 20 * h)"
proof -
  have "(real h > 0.95 * real t) = (real (19 * t) < real (20 * h))" by (simp add: field_simps)
  also have "\<dots> = (19 * t < 20 * h)" by (simp only: of_nat_less_iff)
  finally show ?thesis .
qed

lemma histogram_length: "length (histogram g) = 256"
  by (simp add: histogram_def)

lemma histogram_nth: "v < 256 \<Longrightarrow> histogram g ! v = length (filter (\<lambda>p. unat p = v) (concat g))"
  by (simp add: histogram_def)

lemma count_sum_aux:
  "sum_list (map (\<lambda>v. length (filter (\<lambda>p. unat p = v) xs)) [0..<256]) = length (xs :: 8 word list)"
proof (induction xs)
  case Nil
  show ?case by (simp add: sum_list_0)
next
  case (Cons x xs)
  have lt: "unat x < 256" using unsigned_less [of x] by simp
  have one: "sum_list (map (\<lambda>v. if unat x = v then 1 else 0) [0..<256]) = (1::nat)"
    using lt by (simp add: interv_sum_list_conv_sum_set_nat)
  have "sum_list (map (\<lambda>v. length (filter (\<lambda>p. unat p = v) (x # xs))) [0..<256])
      = sum_list (map (\<lambda>v. (if unat x = v then 1 else 0) + length (filter (\<lambda>p. unat p = v) xs)) [0..<256])"
    by (rule arg_cong [where f = sum_list], rule map_cong) auto
  also have "\<dots> = 1 + length xs"
    by (simp only: sum_list_addf one Cons.IH)
  finally show ?case by simp
qed

lemma histogram_sum: "sum_list (histogram g) = length (concat g)"
  unfolding histogram_def by (rule count_sum_aux)

lemma histogram_nonempty: "histogram g \<noteq> []"
  using histogram_length [of g] by auto

lemma histogram_last: "last (histogram g) = length (filter (\<lambda>p. unat p = 255) (concat g))"
proof -
  have "last (histogram g) = histogram g ! 255"
    using histogram_nonempty [of g] by (simp add: last_conv_nth histogram_length)
  then show ?thesis by (simp add: histogram_nth)
qed

lemma histogram_hd: "hd (histogram g) = length (filter (\<lambda>p. unat p = 0) (concat g))"
proof -
  have "hd (histogram g) = histogram g ! 0"
    using histogram_nonempty [of g] by (simp add: hd_conv_nth)
  then show ?thesis by (simp add: histogram_nth)
qed

lemma histogram_Max_gt:
  "(c < Max (set (histogram g))) = (\<exists>v<256. c < length (filter (\<lambda>p. unat p = v) (concat g)))"
proof -
  have ne: "set (histogram g) \<noteq> {}" using histogram_nonempty [of g] by simp
  have "(c < Max (set (histogram g))) = (\<exists>a\<in>set (histogram g). c < a)"
    using ne by (simp add: Max_gr_iff)
  also have "\<dots> = (\<exists>v<256. c < histogram g ! v)"
  proof
    assume "\<exists>a\<in>set (histogram g). c < a"
    then obtain v where "v < length (histogram g)" "c < histogram g ! v"
      by (auto simp: in_set_conv_nth)
    then show "\<exists>v<256. c < histogram g ! v" by (auto simp: histogram_length)
  next
    assume "\<exists>v<256. c < histogram g ! v"
    then obtain v where v: "v < 256" "c < histogram g ! v" by blast
    then have "histogram g ! v \<in> set (histogram g)" by (simp add: histogram_length)
    with v show "\<exists>a\<in>set (histogram g). c < a" by blast
  qed
  also have "\<dots> = (\<exists>v<256. c < length (filter (\<lambda>p. unat p = v) (concat g)))"
    by (auto simp: histogram_nth)
  finally show ?thesis .
qed

lemma three_buckets:
  "a \<noteq> b \<Longrightarrow> a \<noteq> v \<Longrightarrow> b \<noteq> v \<Longrightarrow>
   length (filter (\<lambda>p. unat p = a) xs) + length (filter (\<lambda>p. unat p = b) xs)
     + length (filter (\<lambda>p. unat p = v) xs) \<le> length (xs :: 8 word list)"
  by (induction xs) auto

lemma is_blank_image_buckets:
  "is_blank_image img =
     (\<exists>v<256. 19 * length (concat (convert_L img))
        < 20 * length (filter (\<lambda>p. unat p = v) (concat (convert_L img))))"
  (is "_ = ?R")
proof -
  let ?g = "convert_L img"
  let ?n = "length (concat ?g)"
  let ?c = "\<lambda>v. length (filter (\<lambda>p. unat p = v) (concat ?g))"
  have mx: "(19 * ?n < 20 * Max (set (histogram ?g))) = (\<exists>v<256. 19 * ?n < 20 * ?c v)"
  proof -
    have "(19 * ?n < 20 * Max (set (histogram ?g))) = (19 * ?n div 20 < Max (set (histogram ?g)))"
      by arith
    also have "\<dots> = (\<exists>v<256. 19 * ?n div 20 < ?c v)" by (rule histogram_Max_gt)
    also have "\<dots> = (\<exists>v<256. 19 * ?n < 20 * ?c v)"
      by (rule ex_cong1) arith
    finally show ?thesis .
  qed
  have "is_blank_image img = (19 * ?n < 20 * ?c 255 \<or> 19 * ?n < 20 * ?c 0 \<or> (\<exists>v<256. 19 * ?n < 20 * ?c v))"
    unfolding is_blank_image_def Let_def gt95_iff histogram_sum histogram_last histogram_hd mx
    by simp
  also have "\<dots> = ?R"
  proof -
    have "19 * ?n < 20 * ?c 255 \<Longrightarrow> ?R" by (rule exI [of _ 255]) simp
    moreover have "19 * ?n < 20 * ?c 0 \<Longrightarrow> ?R" by (rule exI [of _ 0]) simp
    ultimately show ?thesis by blast
  qed
  finally show ?thesis .
qed

lemma is_blank_image_v2_buckets:
  "is_blank_image_v2 img =
     (19 * length (concat (convert_L img))
        < 20 * length (filter (\<lambda>p. unat p = 255) (concat (convert_L img))))"
  unfolding is_blank_image_v2_def Let_def gt95_iff histogram_sum histogram_last by simp

lemma luma_white: "luma white = 255"
  by (simp add: luma_def white_def)

lemma luma_black: "luma black = 0"
  by (simp add: luma_def black_def)

lemma over95_bucket:
  "v < 256 \<Longrightarrow>
   (real (histogram g ! v) > 0.95 * real (sum_list (histogram g)))
     = (19 * length (concat g) < 20 * length (filter (\<lambda>p. unat p = v) (concat g)))"
  by (simp only: gt95_iff histogram_sum histogram_nth)

lemma is_blank_image_over95:
  "is_blank_image img =
     (\<exists>v<256. real (histogram (convert_L img) ! v)
                 > 0.95 * real (sum_list (histogram (convert_L img))))"
  unfolding is_blank_image_buckets
  by (rule ex_cong1) (auto simp only: over95_bucket)

lemma split_not_blank:
  assumes "a < 256" "b < 256" "a \<noteq> b"
    and eq: "histogram (convert_L img) ! a = histogram (convert_L img) ! b"
    and all: "histogram (convert_L img) ! a + histogram (convert_L img) ! b
              = sum_list (histogram (convert_L img))"
    and pos: "0 < sum_list (histogram (convert_L img))"
  shows "\<not> is_blank_image img"
proof -
  let ?xs = "concat (convert_L img)"
  let ?c = "\<lambda>v. length (filter (\<lambda>p. unat p = v) ?xs)"
  have ca: "?c a = ?c b" using eq assms(1,2) by (simp add: histogram_nth)
  have tot: "?c a + ?c b = length ?xs" using all assms(1,2) by (simp add: histogram_nth histogram_sum)
  have pos': "0 < length ?xs" using pos by (simp add: histogram_sum)
  have "\<not> 19 * length ?xs < 20 * ?c v" for v
  proof (cases "v = a \<or> v = b")
    case True
    then have "?c v = ?c a" using ca by auto
    with tot ca pos' show ?thesis by arith
  next
    case False
    then have "?c a + ?c b + ?c v \<le> length ?xs"
      using assms(3) by (intro three_buckets) auto
    with tot show ?thesis by arith
  qed
  then show ?thesis by (simp add: is_blank_image_buckets)
qed

text \<open>
  Claim C1, as the code has it: \<open>is_blank_image\<close> returns true exactly when some bucket of
  the 256-bucket luminance histogram (the white bucket 255 and the black bucket 0 among
  them) holds strictly more than 95 per cent of the pixels; a frame whose pixels are split
  half and half between two different buckets is not blank.
\<close>

theorem is_blank_image_strict_threshold:
  "(is_blank_image img =
      (\<exists>v<256. real (histogram (convert_L img) ! v)
                  > 0.95 * real (sum_list (histogram (convert_L img)))))
   \<and> (a < 256 \<and> b < 256 \<and> a \<noteq> b
        \<and> histogram (convert_L img) ! a = histogram (convert_L img) ! b
        \<and> histogram (convert_L img) ! a + histogram (convert_L img) ! b
              = sum_list (histogram (convert_L img))
        \<and> 0 < sum_list (histogram (convert_L img))
      \<longrightarrow> \<not> is_blank_image img)"
  using is_blank_image_over95 [of img] split_not_blank [of a b img] by blast

lemma hist_split2:
  "histogram (convert_L split2) ! 0 = 1" "histogram (convert_L split2) ! 255 = 1"
  "sum_list (histogram (convert_L split2)) = 2"
  by (simp_all add: histogram_nth histogram_sum split2_def convert_L_def luma_white luma_black)

text \<open>The two-pixel frame, one black and one white pixel, is such a split and is not blank.\<close>

theorem is_blank_image_strict_threshold_witness:
  "(0::nat) < 256 \<and> (255::nat) < 256 \<and> (0::nat) \<noteq> 255
   \<and> histogram (convert_L split2) ! 0 = histogram (convert_L split2) ! 255
   \<and> histogram (convert_L split2) ! 0 + histogram (convert_L split2) ! 255
         = sum_list (histogram (convert_L split2))
   \<and> 0 < sum_list (histogram (convert_L split2))
   \<and> \<not> is_blank_image split2"
proof -
  have h: "(0::nat) < 256 \<and> (255::nat) < 256 \<and> (0::nat) \<noteq> 255
     \<and> histogram (convert_L split2) ! 0 = histogram (convert_L split2) ! 255
     \<and> histogram (convert_L split2) ! 0 + histogram (convert_L split2) ! 255
           = sum_list (histogram (convert_L split2))
     \<and> 0 < sum_list (histogram (convert_L split2))"
    by (simp only: hist_split2) simp
  have c: "\<not> is_blank_image split2"
    by (rule is_blank_image_strict_threshold [of split2 0 255, THEN conjunct2, rule_format, OF h])
  from h c show ?thesis by - (elim conjE, intro conjI, assumption+)
qed

text \<open>
  Claim C1 as stated fails at the boundary: in a frame of twenty pixels with nineteen white
  ones the white bucket holds exactly 95 per cent, and the frame is not classified blank.
\<close>

theorem is_blank_image_boundary_counterexample:
  "real (histogram (convert_L frame95) ! 255)
     \<ge> 0.95 * real (sum_list (histogram (convert_L frame95)))
   \<and> \<not> is_blank_image frame95"
proof -
  have a: "histogram (convert_L frame95) ! 255 = 19"
    by (simp add: histogram_nth frame95_def convert_L_def luma_white luma_black filter_replicate)
  have b: "sum_list (histogram (convert_L frame95)) = 20"
    by (simp add: histogram_sum frame95_def convert_L_def)
  have c: "\<not> is_blank_image frame95"
    by (simp add: is_blank_image_buckets frame95_def convert_L_def luma_white luma_black filter_replicate)
  show ?thesis by (simp add: a b c)
qed

text \<open>
  Claim C10 as stated fails: gallery\_v2 does not classify a single black pixel as blank,
  gallery\_v4 does.
\<close>

theorem is_blank_image_versions_counterexample:
  "\<not> is_blank_image_v2 black1 \<and> is_blank_image black1"
proof -
  have "\<not> is_blank_image_v2 black1"
    by (simp add: is_blank_image_v2_buckets black1_def convert_L_def luma_black)
  moreover have "is_blank_image black1"
    unfolding is_blank_image_buckets
    by (rule exI [of _ 0]) (simp add: black1_def convert_L_def luma_black)
  ultimately show ?thesis by simp
qed

lemma ex_less_256: "(\<exists>v<256. Q v) = (Q (255::nat) \<or> (\<exists>v<255. Q v))"
proof
  assume "\<exists>v<256. Q v"
  then obtain v where v: "v < 256" "Q v" by blast
  show "Q 255 \<or> (\<exists>v<255. Q v)"
  proof (cases "v = 255")
    case True
    with v show ?thesis by simp
  next
    case False
    with v have "v < 255" by simp
    with v show ?thesis by blast
  qed
next
  assume "Q 255 \<or> (\<exists>v<255. Q v)"
  then show "\<exists>v<256. Q v"
  proof
    assume "Q 255"
    then show ?thesis by (intro exI [of _ 255]) simp
  next
    assume "\<exists>v<255. Q v"
    then obtain v where "v < 255" "Q v" by blast
    then have "v < 256 \<and> Q v" by simp
    then show ?thesis by blast
  qed
qed

text \<open>
  Claim C10, as the code has it: every frame that gallery\_v2 classifies as blank is blank
  for gallery\_v4, and gallery\_v4 classifies as blank exactly the frames that gallery\_v2
  does together with those in which a bucket other than the white one holds more than
  95 per cent of the pixels.
\<close>

theorem is_blank_image_extends_v2:
  "(is_blank_image_v2 img \<longrightarrow> is_blank_image img)
   \<and> is_blank_image img =
       (is_blank_image_v2 img
        \<or> (\<exists>v<255. real (histogram (convert_L img) ! v)
                       > 0.95 * real (sum_list (histogram (convert_L img)))))"
proof -
  let ?P = "\<lambda>v. real (histogram (convert_L img) ! v)
                 > 0.95 * real (sum_list (histogram (convert_L img)))"
  have lt: "(255::nat) < 256" by simp
  have v2: "is_blank_image_v2 img = ?P 255"
    by (simp only: is_blank_image_v2_buckets over95_bucket [OF lt])
  have main: "is_blank_image img = (is_blank_image_v2 img \<or> (\<exists>v<255. ?P v))"
    by (simp only: is_blank_image_over95 v2 ex_less_256)
  show ?thesis
  proof (intro conjI impI)
    assume "is_blank_image_v2 img"
    then show "is_blank_image img" by (simp only: main simp_thms)
  next
    show "is_blank_image img = (is_blank_image_v2 img \<or> (\<exists>v<255. ?P v))" by (rule main)
  qed
qed

text \<open>A single white pixel is blank for both versions.\<close>

theorem is_blank_image_extends_v2_witness:
  "is_blank_image_v2 white1 \<and> is_blank_image white1"
proof -
  have "is_blank_image_v2 white1"
    by (simp add: is_blank_image_v2_buckets white1_def convert_L_def luma_white)
  then show ?thesis using is_blank_image_extends_v2 [of white1] by simp
qed

section \<open>Properties of the aligner\<close>

lemma rotate_zero: "rotate_img resample img 0 = img"
  by (simp add: rotate_img_def)

lemma align_horizon_None:
  "hough (convert_L img) = Inr None \<Longrightarrow> align_horizon hough resample img = Inr img"
  by (simp add: align_horizon_def mean_angle_def rotate_zero)


text \<open>
  Claim C4: for every panel in which the detector finds no lines, the correction angle is
  exactly 0, \<open>align_horizon\<close> does not fail, and the result is the rotation of the panel by
  0 degrees, whose pixel content is that of the input.
\<close>

theorem align_horizon_no_lines:
  "hough (convert_L panel) = Inr None \<Longrightarrow>
   mean_angle None = 0 \<and> - mean_angle None = 0
   \<and> align_horizon hough resample panel = Inr (rotate_img resample panel 0)
   \<and> align_horizon hough resample panel = Inr panel"
  by (simp add: align_horizon_None rotate_zero mean_angle_def)

text \<open>
  The two-pixel panel with the detector that finds no line.
\<close>

theorem align_horizon_no_lines_witness:
  "no_lines (convert_L split2) = Inr None
   \<and> align_horizon no_lines keep split2 = Inr split2"
  using align_horizon_no_lines [of no_lines split2 keep]
  by (simp add: no_lines_def rotate_zero)

text \<open>
  Claim C9: when the detector finds no lines in a panel, \<open>align_horizon\<close> succeeds on it,
  and applied to its own output it yields the same output.
\<close>

theorem align_horizon_idempotent:
  "hough (convert_L panel) = Inr None \<Longrightarrow>
   (case align_horizon hough resample panel of
      Inl e \<Rightarrow> False
    | Inr aligned \<Rightarrow> align_horizon hough resample aligned = align_horizon hough resample panel)"
  by (simp add: align_horizon_None)

text \<open>
  The two-pixel panel again.
\<close>

theorem align_horizon_idempotent_witness:
  "no_lines (convert_L split2) = Inr None
   \<and> (case align_horizon no_lines keep split2 of
        Inl e \<Rightarrow> False
      | Inr aligned \<Rightarrow> align_horizon no_lines keep aligned = align_horizon no_lines keep split2)"
  using align_horizon_idempotent [of no_lines split2 keep]
  by (simp add: no_lines_def)




section \<open>Properties of the panel pipeline\<close>

lemma process_obj_content:
  "r < length s \<Longrightarrow>
   map_sum id (\<lambda>(r', s'). s' ! r') (process_and_split_image_obj hough resample s r)
     = process_and_split_image hough resample (s ! r)"
  by (simp add: process_and_split_image_obj_def process_and_split_image_def Let_def
           split: sum.splits)

text \<open>
  Claim C5: for a frame of fewer than 6 rows, \<open>process_and_split_image\<close> of gallery\_v4
  returns the reference it was given, the store of image objects is unchanged, and no
  panel is cropped or aligned: the result does not depend on the detector.
\<close>

theorem process_short_frame_same_object:
  "r < length s \<Longrightarrow> height (s ! r) < 6 \<Longrightarrow>
   process_and_split_image_obj hough resample s r = Inr (r, s)
   \<and> process_and_split_image hough resample (s ! r) = Inr (s ! r)"
  by (simp add: process_and_split_image_obj_def process_and_split_image_def)

text \<open>
  The two-pixel frame, alone in the store.
\<close>

theorem process_short_frame_same_object_witness:
  "(0::nat) < length [split2] \<and> height ([split2] ! 0) < 6
   \<and> process_and_split_image_obj no_lines keep [split2] 0 = Inr (0, [split2])
   \<and> process_and_split_image no_lines keep split2 = Inr split2"
  using process_short_frame_same_object [of 0 "[split2]" no_lines keep]
  by (simp add: height_def split2_def)

section \<open>Properties of the loop over the buoys\<close>

lemma outputs_append:
  "outputs hough resample (xs @ ys) = outputs hough resample xs @ outputs hough resample ys"
  by (simp add: outputs_def)

lemma cycle_step_blank:
  "fetch buoy_id = Some image_path \<Longrightarrow> Image_open image_path = Inr img \<Longrightarrow>
   is_blank_image img \<Longrightarrow> cycle_step fetch Image_open hough resample st buoy_id = st"
  by (simp add: cycle_step_def)

lemma cycle_step_inv:
  assumes "cycle_inv fetch Image_open hough resample st"
  shows "cycle_inv fetch Image_open hough resample
           (cycle_step fetch Image_open hough resample st buoy_id)"
proof (cases "fetch buoy_id")
  case None
  with assms show ?thesis by (simp add: cycle_step_def)
next
  case (Some image_path)
  show ?thesis
  proof (cases "Image_open image_path")
    case (Inl e)
    with Some assms show ?thesis by (simp add: cycle_step_def)
  next
    case (Inr img)
    show ?thesis
    proof (cases "is_blank_image img")
      case True
      with Some Inr assms show ?thesis by (simp add: cycle_step_def)
    next
      case False
      have src: "\<exists>b p. fetch b = Some p \<and> Image_open p = Inr img"
        using Some Inr by blast
      show ?thesis
      proof (cases "process_and_split_image hough resample img")
        case (Inl e)
        with Some Inr False assms src show ?thesis
          by (auto simp: cycle_step_def cycle_inv_def outputs_append)
             (simp_all add: outputs_def)
      next
        case (Inr processed_img)
        with Some \<open>Image_open image_path = Inr img\<close> False assms src show ?thesis
          by (auto simp: cycle_step_def cycle_inv_def outputs_append)
             (simp_all add: outputs_def)
      qed
    qed
  qed
qed

lemma foldl_cycle_inv:
  "cycle_inv fetch Image_open hough resample st \<Longrightarrow>
   cycle_inv fetch Image_open hough resample
     (foldl (cycle_step fetch Image_open hough resample) st buoy_ids)"
  by (induction buoy_ids arbitrary: st) (simp_all add: cycle_step_inv)

lemma run_cycle_inv:
  "cycle_inv fetch Image_open hough resample (run_cycle fetch Image_open hough resample buoy_ids)"
  unfolding run_cycle_def
  by (rule foldl_cycle_inv) (simp add: cycle_inv_def outputs_def)

lemma white1_blank: "is_blank_image white1"
  unfolding is_blank_image_buckets
  by (rule exI [of _ 255]) (simp add: white1_def convert_L_def luma_white)

lemma split2_not_blank: "\<not> is_blank_image split2"
  by (simp add: is_blank_image_buckets split2_def convert_L_def luma_white luma_black)

text \<open>
  Claim C7: in a cycle, a step that fetches a frame classified as blank leaves the state as
  it is; every frame passed to \<open>process_and_split_image\<close> is a fetched frame that is not
  blank; and the frames composed into the gallery are exactly the results of
  \<open>process_and_split_image\<close> on those frames, so a blank frame is never a source of the
  gallery.
\<close>

theorem blank_frames_never_processed:
  "(\<forall>st buoy_id image_path img.
       fetch buoy_id = Some image_path \<and> Image_open image_path = Inr img \<and> is_blank_image img
       \<longrightarrow> cycle_step fetch Image_open hough resample st buoy_id = st)
   \<and> (\<forall>f \<in> set (pipeline_inputs (run_cycle fetch Image_open hough resample buoy_ids)).
         \<not> is_blank_image f)
   \<and> images (run_cycle fetch Image_open hough resample buoy_ids)
       = outputs hough resample
           (pipeline_inputs (run_cycle fetch Image_open hough resample buoy_ids))
   \<and> create_gallery fetch Image_open hough resample buoy_ids
       = compose (outputs hough resample
           (pipeline_inputs (run_cycle fetch Image_open hough resample buoy_ids)))"
proof -
  have inv: "cycle_inv fetch Image_open hough resample
               (run_cycle fetch Image_open hough resample buoy_ids)"
    by (rule run_cycle_inv)
  have a: "\<forall>st buoy_id image_path img.
       fetch buoy_id = Some image_path \<and> Image_open image_path = Inr img \<and> is_blank_image img
       \<longrightarrow> cycle_step fetch Image_open hough resample st buoy_id = st"
    by (simp add: cycle_step_blank)
  have b: "\<forall>f \<in> set (pipeline_inputs (run_cycle fetch Image_open hough resample buoy_ids)).
         \<not> is_blank_image f"
    using inv by (simp add: cycle_inv_def)
  have c: "images (run_cycle fetch Image_open hough resample buoy_ids)
       = outputs hough resample
           (pipeline_inputs (run_cycle fetch Image_open hough resample buoy_ids))"
    using inv by (simp add: cycle_inv_def)
  have d: "create_gallery fetch Image_open hough resample buoy_ids
       = compose (outputs hough resample
           (pipeline_inputs (run_cycle fetch Image_open hough resample buoy_ids)))"
    by (simp only: create_gallery_def c)
  from a b c d show ?thesis by (intro conjI)
qed

lemma run_cycle_example:
  "run_cycle fetch_ok open_ok no_lines keep [45007, 45012]
     = \<lparr>images = [split2], pipeline_inputs = [split2]\<rparr>"
proof -
  have p: "process_and_split_image no_lines keep split2 = Inr split2"
    by (simp add: process_and_split_image_def height_def split2_def)
  have s1: "cycle_step fetch_ok open_ok no_lines keep \<lparr>images = [], pipeline_inputs = []\<rparr> 45007
            = \<lparr>images = [], pipeline_inputs = []\<rparr>"
    by (simp add: cycle_step_def fetch_ok_def open_ok_def white1_blank)
  have s2: "cycle_step fetch_ok open_ok no_lines keep \<lparr>images = [], pipeline_inputs = []\<rparr> 45012
            = \<lparr>images = [split2], pipeline_inputs = [split2]\<rparr>"
    by (simp add: cycle_step_def fetch_ok_def open_ok_def split2_not_blank p)
  show ?thesis by (simp add: run_cycle_def s1 s2)
qed

text \<open>
  Buoy 45007 delivers an all-white frame, buoy 45012 the two-pixel frame: the white frame is
  fetched and is blank, and only the two-pixel frame is passed on and composed.
\<close>

theorem blank_frames_never_processed_witness:
  "fetch_ok 45007 = Some ''white'' \<and> open_ok ''white'' = Inr white1 \<and> is_blank_image white1
   \<and> cycle_step fetch_ok open_ok no_lines keep \<lparr>images = [], pipeline_inputs = []\<rparr> 45007
       = \<lparr>images = [], pipeline_inputs = []\<rparr>
   \<and> split2 \<in> set (pipeline_inputs (run_cycle fetch_ok open_ok no_lines keep [45007, 45012]))
   \<and> \<not> is_blank_image split2
   \<and> white1 \<notin> set (pipeline_inputs (run_cycle fetch_ok open_ok no_lines keep [45007, 45012]))"
proof -
  have h: "fetch_ok 45007 = Some ''white'' \<and> open_ok ''white'' = Inr white1 \<and> is_blank_image white1"
    by (simp add: fetch_ok_def open_ok_def white1_blank)
  note t = blank_frames_never_processed [of fetch_ok open_ok no_lines keep "[45007, 45012]"]
  have s: "cycle_step fetch_ok open_ok no_lines keep \<lparr>images = [], pipeline_inputs = []\<rparr> 45007
       = \<lparr>images = [], pipeline_inputs = []\<rparr>"
    using t [THEN conjunct1, rule_format, OF h] .
  have m: "split2 \<in> set (pipeline_inputs (run_cycle fetch_ok open_ok no_lines keep [45007, 45012]))"
    by (simp add: run_cycle_example)
  have n: "\<not> is_blank_image split2"
    using t [THEN conjunct2, THEN conjunct1, rule_format, OF m] .
  have w: "white1 \<notin> set (pipeline_inputs (run_cycle fetch_ok open_ok no_lines keep [45007, 45012]))"
    using t [THEN conjunct2, THEN conjunct1] white1_blank by blast
  from h s m n w show ?thesis by (intro conjI) (elim conjE, assumption)+
qed

section \<open>Properties of the raster operations\<close>

lemma width_Image_new: "width (Image_new w h) = w"
  by (simp add: Image_new_def)

lemma height_Image_new: "height (Image_new w h) = h"
  by (simp add: Image_new_def height_def)


lemma width_paste: "width (paste canvas im pos) = width canvas"
  by (cases pos) (simp add: paste_def)

lemma height_paste: "height (paste canvas im pos) = height canvas"
  by (cases pos) (simp add: paste_def height_def)


lemma width_paste_all: "width (paste_all canvas y ps) = width canvas"
  by (induction ps arbitrary: canvas y) (simp_all add: width_paste)

lemma height_paste_all: "height (paste_all canvas y ps) = height canvas"
  by (induction ps arbitrary: canvas y) (simp_all add: height_paste)


lemma px_row:
  assumes "wf_image img" "y < height img"
  shows "map (\<lambda>x. px img (int x) (int y)) [0..<width img] = rows img ! y"
proof -
  have len: "length (rows img ! y) = width img"
    using assms by (simp add: wf_image_def list_all_length height_def)
  have "map (\<lambda>x. px img (int x) (int y)) [0..<width img]
        = map (\<lambda>x. rows img ! y ! x) [0..<width img]"
    using assms(2) by (intro map_cong) (simp_all add: px_def)
  also have "\<dots> = rows img ! y"
    using len map_nth [of "rows img ! y"] by simp
  finally show ?thesis .
qed

lemma crop_full_width:
  assumes wf: "wf_image img" and u: "0 \<le> u" "u \<le> b" and b: "b \<le> int (height img)"
  shows "crop img (0, u, int (width img), b)
           = Inr \<lparr>width = width img, rows = drop (nat u) (take (nat b) (rows img))\<rparr>"
proof -
  have rows_eq: "map (\<lambda>y. map (\<lambda>x. px img (int x) (u + int y)) [0..<width img])
                   [0..<nat (b - u)]
                 = drop (nat u) (take (nat b) (rows img))" (is "?L = ?R")
  proof (rule nth_equalityI)
    show "length ?L = length ?R"
      using u b by (simp add: height_def) 
  next
    fix y assume "y < length ?L"
    then have y: "y < nat (b - u)" by simp
    then have in_h: "nat u + y < height img" using u b by linarith
    have "?L ! y = map (\<lambda>x. px img (int x) (int (nat u + y))) [0..<width img]"
      using y u by simp
    also have "\<dots> = rows img ! (nat u + y)"
      by (rule px_row [OF wf in_h])
    also have "\<dots> = ?R ! y"
      using y u b in_h by (simp add: height_def)
    finally show "?L ! y = ?R ! y" .
  qed
  show ?thesis
    using u b by (simp add: crop_def rows_eq)
qed


section \<open>Properties of the panel pipeline: panels\<close>

lemma crop_panel:
  assumes wf: "wf_image img" and le: "(i + 1) * ph \<le> height img"
  shows "crop img (panel_box (width img) ph i)
           = Inr \<lparr>width = width img, rows = take ph (drop (i * ph) (rows img))\<rparr>"
proof -
  have "crop img (0, int (i * ph), int (width img), int ((i + 1) * ph))
          = Inr \<lparr>width = width img,
                  rows = drop (nat (int (i * ph))) (take (nat (int ((i + 1) * ph))) (rows img))\<rparr>"
  proof (rule crop_full_width [OF wf])
    show "0 \<le> int (i * ph)" by simp
    show "int (i * ph) \<le> int ((i + 1) * ph)" by simp
    show "int ((i + 1) * ph) \<le> int (height img)" using le by (simp only: of_nat_le_iff)
  qed
  then have c: "crop img (panel_box (width img) ph i)
          = Inr \<lparr>width = width img, rows = drop (i * ph) (take ((i + 1) * ph) (rows img))\<rparr>"
    by (simp only: nat_int panel_box_def)
  have "drop (i * ph) (take ((i + 1) * ph) (rows img))
          = take ((i + 1) * ph - i * ph) (drop (i * ph) (rows img))"
    by (rule drop_take)
  also have "(i + 1) * ph - i * ph = ph" by simp
  finally show ?thesis using c by simp
qed

lemma six_panels_le:
  assumes "i < 6"
  shows "(i + 1) * (h div 6) \<le> (h :: nat)"
proof -
  have "(i + 1) * (h div 6) \<le> 6 * (h div 6)"
    using assms by (intro mult_le_mono1) simp
  also have "\<dots> \<le> h" by simp
  finally show ?thesis .
qed

lemma range6_upt: "range6 = [0..<6]"
  by (simp add: range6_def eval_nat_numeral)

lemma concat_strips:
  "concat (map (\<lambda>i. take ph (drop (i * ph) xs)) [0..<n]) = take (n * ph) xs"
proof (induction n)
  case 0
  show ?case by simp
next
  case (Suc n)
  have "take (Suc n * ph) xs = take (n * ph + ph) xs" by (simp add: add.commute)
  also have "\<dots> = take (n * ph) xs @ take ph (drop (n * ph) xs)" by (rule take_add)
  finally show ?case using Suc.IH by simp
qed

lemma concat_six:
  "concat (map (\<lambda>i. take ph (drop (i * ph) xs)) range6) = take (6 * ph) xs"
  by (simp only: range6_upt concat_strips)

lemma align_panels_Inr:
  "align_panels hough resample img ph ids acc = Inr aps \<Longrightarrow>
   length aps = length acc + length ids \<and> take (length acc) aps = acc
   \<and> (\<forall>k<length ids. \<exists>panel.
          crop img (panel_box (width img) ph (ids ! k)) = Inr panel
          \<and> align_horizon hough resample panel = Inr (aps ! (length acc + k)))"
proof (induction ids arbitrary: acc)
  case Nil
  then show ?case by simp
next
  case (Cons i ids)
  from Cons.prems obtain panel aligned where
    c: "crop img (panel_box (width img) ph i) = Inr panel" and
    a: "align_horizon hough resample panel = Inr aligned" and
    rest: "align_panels hough resample img ph ids (acc @ [aligned]) = Inr aps"
    by (auto split: sum.splits)
  from Cons.IH [OF rest] have
    len: "length aps = length acc + 1 + length ids" and
    tk: "take (Suc (length acc)) aps = acc @ [aligned]" and
    all: "\<forall>k<length ids. \<exists>panel.
          crop img (panel_box (width img) ph (ids ! k)) = Inr panel
          \<and> align_horizon hough resample panel = Inr (aps ! (length acc + 1 + k))"
    by simp_all
  have tk': "take (length acc) aps = acc"
  proof -
    have "take (length acc) aps = take (length acc) (take (Suc (length acc)) aps)" by simp
    also have "\<dots> = acc" by (simp only: tk) simp
    finally show ?thesis .
  qed
  have at: "aps ! length acc = aligned"
  proof -
    have "aps ! length acc = take (Suc (length acc)) aps ! length acc" by simp
    also have "\<dots> = aligned" by (simp only: tk) simp
    finally show ?thesis .
  qed
  have "\<exists>panel. crop img (panel_box (width img) ph ((i # ids) ! k)) = Inr panel
          \<and> align_horizon hough resample panel = Inr (aps ! (length acc + k))"
    if "k < length (i # ids)" for k
  proof (cases k)
    case 0
    with c a at show ?thesis by simp
  next
    case (Suc k')
    with that all show ?thesis by simp
  qed
  with len tk' show ?case by simp
qed

lemma wf_frame7: "wf_image frame7"
  by (simp add: wf_image_def frame7_def)

lemma height_frame7: "height frame7 = 7"
  by (simp add: height_def frame7_def)

lemma crop_frame7:
  assumes "i < 6"
  shows "crop frame7 (panel_box (width frame7) (height frame7 div 6) i)
           = Inr \<lparr>width = 1, rows = [[black]]\<rparr>"
proof -
  have le: "(i + 1) * (height frame7 div 6) \<le> height frame7"
    by (rule six_panels_le [OF assms])
  have "i = 0 \<or> i = 1 \<or> i = 2 \<or> i = 3 \<or> i = 4 \<or> i = 5" using assms by arith
  then have "take 1 (drop i (rows frame7)) = [[black]]"
    by (elim disjE) (simp_all add: frame7_def)
  then show ?thesis
    using crop_panel [OF wf_frame7 le] by (simp add: height_frame7) (simp add: frame7_def)
qed

text \<open>
  Claim C3 as stated fails: a frame of 7 rows has \<open>panel_height = 1\<close>, the box of the last
  panel ends at row 6 and not at the frame's height 7, the last panel has one row, and the
  seventh row of the frame, the white one, is in none of the six panels.
\<close>

theorem last_strip_counterexample:
  "height frame7 = 7
   \<and> panel_box (width frame7) (height frame7 div 6) 5 = (0, 5, 1, 6)
   \<and> crop frame7 (panel_box (width frame7) (height frame7 div 6) 5)
       = Inr \<lparr>width = 1, rows = [[black]]\<rparr>
   \<and> map (\<lambda>i. crop frame7 (panel_box (width frame7) (height frame7 div 6) i)) range6
       = [Inr black1, Inr black1, Inr black1, Inr black1, Inr black1, Inr black1]
   \<and> rows frame7 ! 6 = [white]"
proof -
  have b: "panel_box (width frame7) (height frame7 div 6) 5 = (0, 5, 1, 6)"
    by (simp add: height_frame7 panel_box_def) (simp add: frame7_def)
  have m: "map (\<lambda>i. crop frame7 (panel_box (width frame7) (height frame7 div 6) i)) range6
       = [Inr black1, Inr black1, Inr black1, Inr black1, Inr black1, Inr black1]"
    by (simp add: range6_def crop_frame7 black1_def)
  have r: "rows frame7 ! 6 = [white]"
    by (simp add: frame7_def)
  have c: "crop frame7 (panel_box (width frame7) (height frame7 div 6) 5)
       = Inr \<lparr>width = 1, rows = [[black]]\<rparr>"
    by (rule crop_frame7) simp
  from height_frame7 b c m r show ?thesis by (intro conjI)
qed

text \<open>
  Claim C3, as the code has it: for a frame of height at least 6, \<open>panel_height\<close> is
  the height divided by 6, rounded down, and at least 1; the loop crops six strips, strip
  \<open>i\<close> holding the \<open>panel_height\<close> rows from row \<open>i * panel_height\<close> on, at the
  frame's width, and aligns each of them; the strips are contiguous and together hold the
  first \<open>height - height mod 6\<close> rows of the frame, so the last \<open>height mod 6\<close> rows
  belong to no panel.
\<close>

theorem six_equal_strips:
  assumes "6 \<le> height img" and "wf_image img"
  shows "1 \<le> height img div 6
   \<and> (\<forall>i<6. crop img (panel_box (width img) (height img div 6) i)
                = Inr \<lparr>width = width img,
                        rows = take (height img div 6)
                                 (drop (i * (height img div 6)) (rows img))\<rparr>
              \<and> length (take (height img div 6) (drop (i * (height img div 6)) (rows img)))
                  = height img div 6)
   \<and> concat (map (\<lambda>i. take (height img div 6) (drop (i * (height img div 6)) (rows img)))
               range6)
       = take (height img - height img mod 6) (rows img)
   \<and> (\<forall>aps. align_panels hough resample img (height img div 6) range6 [] = Inr aps \<longrightarrow>
          length aps = 6
          \<and> (\<forall>i<6. align_horizon hough resample
                        \<lparr>width = width img,
                         rows = take (height img div 6)
                                  (drop (i * (height img div 6)) (rows img))\<rparr>
                      = Inr (aps ! i)))"
proof -
  let ?ph = "height img div 6"
  let ?strip = "\<lambda>i. take ?ph (drop (i * ?ph) (rows img))"
  have ph: "1 \<le> ?ph" using assms(1) by simp
  have crops: "crop img (panel_box (width img) ?ph i)
                 = Inr \<lparr>width = width img, rows = ?strip i\<rparr>" if "i < 6" for i
    by (rule crop_panel [OF assms(2) six_panels_le [OF that]])
  have lens: "length (?strip i) = ?ph" if "i < 6" for i
  proof -
    have "(i + 1) * ?ph \<le> length (rows img)"
      using six_panels_le [OF that, of "height img"] by (simp only: height_def)
    then show ?thesis by simp
  qed
  have "6 * ?ph = height img - height img mod 6"
    by (simp add: minus_mod_eq_mult_div)
  then have cover: "concat (map ?strip range6) = take (height img - height img mod 6) (rows img)"
    by (simp only: concat_six)
  have loop: "length aps = 6
      \<and> (\<forall>i<6. align_horizon hough resample \<lparr>width = width img, rows = ?strip i\<rparr>
                  = Inr (aps ! i))"
    if run: "align_panels hough resample img ?ph range6 [] = Inr aps" for aps
  proof -
    from align_panels_Inr [OF run] have
      len: "length aps = 6" and
      all: "\<forall>k<6. \<exists>panel. crop img (panel_box (width img) ?ph (range6 ! k)) = Inr panel
                 \<and> align_horizon hough resample panel = Inr (aps ! k)"
      by (simp_all add: range6_def)
    have "align_horizon hough resample \<lparr>width = width img, rows = ?strip i\<rparr> = Inr (aps ! i)"
      if i: "i < 6" for i
    proof -
      have ri: "range6 ! i = i" using i by (simp add: range6_upt)
      from all i obtain panel where
        c: "crop img (panel_box (width img) ?ph (range6 ! i)) = Inr panel" and
        a: "align_horizon hough resample panel = Inr (aps ! i)"
        by blast
      from c crops [OF i] have "panel = \<lparr>width = width img, rows = ?strip i\<rparr>"
        by (simp only: ri sum.inject)
      with a show ?thesis by simp
    qed
    with len show ?thesis by simp
  qed
  have A: "\<forall>i<6. crop img (panel_box (width img) ?ph i)
                = Inr \<lparr>width = width img, rows = ?strip i\<rparr>
              \<and> length (?strip i) = ?ph"
  proof (intro allI impI conjI)
    fix i :: nat assume i: "i < 6"
    show "crop img (panel_box (width img) ?ph i) = Inr \<lparr>width = width img, rows = ?strip i\<rparr>"
      by (rule crops [OF i])
    show "length (?strip i) = ?ph" by (rule lens [OF i])
  qed
  have D: "\<forall>aps. align_panels hough resample img ?ph range6 [] = Inr aps \<longrightarrow>
          length aps = 6
          \<and> (\<forall>i<6. align_horizon hough resample \<lparr>width = width img, rows = ?strip i\<rparr>
                      = Inr (aps ! i))"
  proof (intro allI impI)
    fix aps assume r: "align_panels hough resample img ?ph range6 [] = Inr aps"
    show "length aps = 6
          \<and> (\<forall>i<6. align_horizon hough resample \<lparr>width = width img, rows = ?strip i\<rparr>
                      = Inr (aps ! i))"
      by (rule loop [OF r])
  qed
  from ph A cover D show ?thesis by (intro conjI)
qed

text \<open>The frame of seven rows: six strips of one row, which hold its first six rows.\<close>

theorem six_equal_strips_witness:
  "6 \<le> height frame7 \<and> wf_image frame7
   \<and> 1 \<le> height frame7 div 6
   \<and> concat (map (\<lambda>i. take (height frame7 div 6)
                           (drop (i * (height frame7 div 6)) (rows frame7))) range6)
       = take (height frame7 - height frame7 mod 6) (rows frame7)"
proof -
  have h1: "6 \<le> height frame7" by (simp add: height_frame7)
  note t = six_equal_strips [OF h1 wf_frame7, of no_lines keep]
  from h1 wf_frame7 t [THEN conjunct1] t [THEN conjunct2, THEN conjunct2, THEN conjunct1]
  show ?thesis by (intro conjI)
qed

section \<open>Properties of the panel pipeline: recombining and trimming\<close>









section \<open>Properties of the composer\<close>

lemma px_paste:
  "px (paste canvas im (x0, y0)) (int x) (int y) =
     (if x < width canvas \<and> y < height canvas
      then (if x0 \<le> x \<and> x < x0 + width im \<and> y0 \<le> y \<and> y < y0 + height im
            then px im (int x - int x0) (int y - int y0)
            else px canvas (int x) (int y))
      else black)"
  by (simp add: px_def paste_def height_def)

lemma px_outside: "\<not> (x < width img \<and> y < height img) \<Longrightarrow> px img (int x) (int y) = black"
  by (auto simp: px_def)

lemma px_paste_all_above:
  "y < y_offset \<Longrightarrow>
   px (paste_all canvas y_offset frames) (int x) (int y) = px canvas (int x) (int y)"
proof (induction frames arbitrary: canvas y_offset)
  case Nil
  show ?case by simp
next
  case (Cons p ps)
  have "px (paste_all canvas y_offset (p # ps)) (int x) (int y)
        = px (paste canvas p (0, y_offset)) (int x) (int y)"
    using Cons.prems by (simp add: Cons.IH)
  also have "\<dots> = px canvas (int x) (int y)"
    using Cons.prems px_outside [of x canvas y] by (simp add: px_paste)
  finally show ?case .
qed

lemma px_paste_all_nth:
  "i < length frames \<Longrightarrow> x < width (frames ! i) \<Longrightarrow> y < height (frames ! i) \<Longrightarrow>
   x < width canvas \<Longrightarrow>
   y_offset + sum_list (map height (take i frames)) + y < height canvas \<Longrightarrow>
   px (paste_all canvas y_offset frames) (int x)
      (int (y_offset + sum_list (map height (take i frames)) + y))
     = px (frames ! i) (int x) (int y)"
proof (induction frames arbitrary: canvas y_offset i)
  case Nil
  then show ?case by simp
next
  case (Cons p ps)
  show ?case
  proof (cases i)
    case 0
    have "px (paste_all (paste canvas p (0, y_offset)) (y_offset + height p) ps) (int x)
            (int (y_offset + y))
          = px (paste canvas p (0, y_offset)) (int x) (int (y_offset + y))"
      by (rule px_paste_all_above) (use Cons.prems 0 in simp)
    also have "\<dots> = px p (int x) (int y)"
      using Cons.prems 0 px_paste [of canvas p 0 y_offset x "y_offset + y"] by simp
    finally show ?thesis using 0 by simp
  next
    case (Suc j)
    have "px (paste_all (paste canvas p (0, y_offset)) (y_offset + height p) ps) (int x)
            (int (y_offset + height p + sum_list (map height (take j ps)) + y))
          = px (ps ! j) (int x) (int y)"
      using Cons.prems Suc
      by (intro Cons.IH) (simp_all add: width_paste height_paste add.assoc)
    then show ?thesis using Suc by (simp add: add.assoc)
  qed
qed

lemma width_le_Max:
  "i < length frames \<Longrightarrow> width (frames ! i) \<le> Max (set (map width frames))"
  by (intro Max_ge) simp_all

lemma take_heights_le:
  "i < length frames \<Longrightarrow>
   sum_list (map height (take i frames)) + height (frames ! i) \<le> sum_list (map height frames)"
proof -
  assume i: "i < length frames"
  have "sum_list (map height frames)
        = sum_list (map height (take i frames)) + sum_list (map height (drop i frames))"
    by (metis append_take_drop_id map_append sum_list_append)
  moreover have "drop i frames = frames ! i # drop (Suc i) frames"
    using i by (simp add: Cons_nth_drop_Suc)
  ultimately show ?thesis by simp
qed

lemma compose_nonempty:
  assumes "frames \<noteq> []"
  shows "\<exists>gallery. compose frames = Some gallery
       \<and> width gallery = Max (set (map width frames))
       \<and> height gallery = sum_list (map height frames)
       \<and> (\<forall>i<length frames. \<forall>x<width (frames ! i). \<forall>y<height (frames ! i).
             px gallery (int x) (int (sum_list (map height (take i frames)) + y))
               = px (frames ! i) (int x) (int y))"
proof -
  let ?W = "Max (set (map width frames))"
  let ?H = "sum_list (map height frames)"
  let ?g = "paste_all (Image_new ?W ?H) 0 frames"
  have c: "compose frames = Some ?g" using assms by (simp add: compose_def)
  have w: "width ?g = ?W" by (simp add: width_paste_all width_Image_new)
  have h: "height ?g = ?H" by (simp add: height_paste_all height_Image_new)
  have p: "px ?g (int x) (int (sum_list (map height (take i frames)) + y))
               = px (frames ! i) (int x) (int y)"
    if i: "i < length frames" and x: "x < width (frames ! i)" and y: "y < height (frames ! i)"
    for i x y
  proof -
    have xw: "x < width (Image_new ?W ?H)"
      using x width_le_Max [OF i] by (simp add: width_Image_new)
    have yh: "0 + sum_list (map height (take i frames)) + y < height (Image_new ?W ?H)"
      using y take_heights_le [OF i] by (simp add: height_Image_new)
    from px_paste_all_nth [OF i x y xw yh] show ?thesis by simp
  qed
  from c w h p show ?thesis by blast
qed

text \<open>
  Claim C6: \<open>compose\<close> on the empty sequence produces no gallery; on a non-empty sequence
  it produces a canvas whose width is the maximum of the widths and whose height is the sum
  of the heights, in which every frame stands at \<open>x = 0\<close> with its first row at the sum of
  the heights of the frames before it; a frame A of 10 by 5 followed by a frame B of 8 by 7
  gives a gallery of 10 by 12 with B from row 5 on.
\<close>

theorem compose_stacks_frames:
  "compose [] = None
   \<and> (frames \<noteq> [] \<longrightarrow>
        (\<exists>gallery. compose frames = Some gallery
           \<and> width gallery = Max (set (map width frames))
           \<and> height gallery = sum_list (map height frames)
           \<and> (\<forall>i<length frames. \<forall>x<width (frames ! i). \<forall>y<height (frames ! i).
                 px gallery (int x) (int (sum_list (map height (take i frames)) + y))
                   = px (frames ! i) (int x) (int y))))
   \<and> (width A = 10 \<and> height A = 5 \<and> width B = 8 \<and> height B = 7 \<longrightarrow>
        (\<exists>gallery. compose [A, B] = Some gallery
           \<and> width gallery = 10 \<and> height gallery = 12
           \<and> (\<forall>x<10. \<forall>y<5. px gallery (int x) (int y) = px A (int x) (int y))
           \<and> (\<forall>x<8. \<forall>y<7. px gallery (int x) (int (5 + y)) = px B (int x) (int y))))"
proof -
  have e: "compose [] = None" by (simp add: compose_def)
  have n: "frames \<noteq> [] \<longrightarrow>
        (\<exists>gallery. compose frames = Some gallery
           \<and> width gallery = Max (set (map width frames))
           \<and> height gallery = sum_list (map height frames)
           \<and> (\<forall>i<length frames. \<forall>x<width (frames ! i). \<forall>y<height (frames ! i).
                 px gallery (int x) (int (sum_list (map height (take i frames)) + y))
                   = px (frames ! i) (int x) (int y)))"
    using compose_nonempty [of frames] by blast
  have ab: "\<exists>gallery. compose [A, B] = Some gallery
           \<and> width gallery = 10 \<and> height gallery = 12
           \<and> (\<forall>x<10. \<forall>y<5. px gallery (int x) (int y) = px A (int x) (int y))
           \<and> (\<forall>x<8. \<forall>y<7. px gallery (int x) (int (5 + y)) = px B (int x) (int y))"
    if s: "width A = 10" "height A = 5" "width B = 8" "height B = 7"
  proof -
    have "[A, B] \<noteq> []" by simp
    from compose_nonempty [OF this] obtain gallery where
      c: "compose [A, B] = Some gallery" and
      w: "width gallery = Max (set (map width [A, B]))" and
      h: "height gallery = sum_list (map height [A, B])" and
      p: "\<forall>i<length [A, B]. \<forall>x<width ([A, B] ! i). \<forall>y<height ([A, B] ! i).
             px gallery (int x) (int (sum_list (map height (take i [A, B])) + y))
               = px ([A, B] ! i) (int x) (int y)"
      by blast
    have w': "width gallery = 10" using w s by simp
    have h': "height gallery = 12" using h s by simp
    have pa: "\<forall>x<10. \<forall>y<5. px gallery (int x) (int y) = px A (int x) (int y)"
      using p [rule_format, of 0] s by simp
    have pb: "\<forall>x<8. \<forall>y<7. px gallery (int x) (int (5 + y)) = px B (int x) (int y)"
      using p [rule_format, of 1] s by simp
    from c w' h' pa pb show ?thesis by blast
  qed
  from e n ab show ?thesis by blast
qed

lemma px_frameB: "px frameB 0 0 = white"
  by (simp add: px_def frameB_def height_def)

text \<open>
  The black frame A of 10 by 5 and the white frame B of 8 by 7: the gallery is 10 by 12,
  and its pixel in column 0 of row 5 is the first pixel of B.
\<close>

theorem compose_stacks_frames_witness:
  "[frameA, frameB] \<noteq> []
   \<and> width frameA = 10 \<and> height frameA = 5 \<and> width frameB = 8 \<and> height frameB = 7
   \<and> (\<exists>gallery. compose [frameA, frameB] = Some gallery
         \<and> width gallery = 10 \<and> height gallery = 12
         \<and> px gallery 0 5 = white)"
proof -
  have s: "width frameA = 10 \<and> height frameA = 5 \<and> width frameB = 8 \<and> height frameB = 7"
    by (simp add: frameA_def frameB_def height_def)
  note t = compose_stacks_frames [of "[frameA, frameB]" frameA frameB,
      THEN conjunct2, THEN conjunct2, rule_format, OF s]
  then obtain gallery where
    c: "compose [frameA, frameB] = Some gallery" and
    w: "width gallery = 10" and h: "height gallery = 12" and
    pb: "\<forall>x<8. \<forall>y<7. px gallery (int x) (int (5 + y)) = px frameB (int x) (int y)"
    by blast
  have "px gallery (int 0) (int (5 + 0)) = px frameB (int 0) (int 0)"
    using pb by (intro pb [rule_format]) simp_all
  then have "px gallery 0 5 = white" by (simp add: px_frameB)
  with c w h have "\<exists>gallery. compose [frameA, frameB] = Some gallery
         \<and> width gallery = 10 \<and> height gallery = 12 \<and> px gallery 0 5 = white"
    by blast
  with s show ?thesis by simp
qed

end
